theory Spec2Isabelle
  imports Main
begin

section \<open>The animated Character widget of character.py\<close>

text \<open>
  A shallow embedding of \<^verbatim>\<open>src/character.py\<close>. Python objects are records, methods
  take the object (\<open>self\<close>) and return it updated next to their result, and every
  \<^verbatim>\<open>raise\<close> is a value \<open>Inl e\<close>. A method that raises after it has assigned an
  attribute returns the object with that assignment made, as Python leaves it.

  Python names that start with an underscore lose it (\<^verbatim>\<open>_wrapper\<close> is \<open>wrapper\<close>,
  \<^verbatim>\<open>_update_position\<close> is \<open>update_position\<close>); the attribute \<^verbatim>\<open>size\<close> is
  \<open>size_c\<close>, since \<open>size\<close> is a constant of HOL.
\<close>

subsection \<open>Exceptions\<close>

datatype error =
    ValueError string
  | RuntimeError string
  | KeyError string
  | IndexError
  | OSError string

text \<open>The apostrophe of Python's f-strings.\<close>

definition apostrophe :: string where
  "apostrophe = [CHR 0x27]"

subsection \<open>AnimationFrame and Animation\<close>

record AnimationFrame =
  filename :: string
  duration :: int

text \<open>\<^verbatim>\<open>AnimationFrame.__init__(filename, duration=250)\<close>: \<open>None\<close> is the omitted argument.\<close>

definition AnimationFrame_init :: "string \<Rightarrow> int option \<Rightarrow> AnimationFrame" where
  "AnimationFrame_init fname dur =
     \<lparr>filename = fname, duration = (case dur of None \<Rightarrow> 250 | Some d \<Rightarrow> d)\<rparr>"

record Animation =
  name :: string
  frames :: "AnimationFrame list"

text \<open>\<^verbatim>\<open>Animation.__init__\<close>: \<^verbatim>\<open>not frames\<close> holds of the empty list only.\<close>

definition Animation_init :: "string \<Rightarrow> AnimationFrame list \<Rightarrow> error + Animation" where
  "Animation_init nm fs =
     (if fs = []
      then Inl (ValueError (''The animation '' @ apostrophe @ nm @ apostrophe @ '' cannot be empty.''))
      else Inr \<lparr>name = nm, frames = fs\<rparr>)"

subsection \<open>The toolkit as the widget sees it\<close>

text \<open>
  The widget framework is not part of the repository. Of a frame (the bounding frame, a
  grid cell, the master) the code reads four numbers; of the wrapper frame it owns, it
  calls the geometry managers; of its own label, it sets the image and asks for timers.
  The answers of \<^verbatim>\<open>winfo_*\<close> are fields of the frame and the calls on the wrapper are
  logged in the order they are made. An image is the path it was opened from and the size
  it was given; \<^verbatim>\<open>Image.open\<close> raises on a path that is not among the files that open
  (its exceptions for a missing and for an unreadable file are both \<open>OSError\<close>).
\<close>

record CTkFrame =
  winfo_rootx :: int
  winfo_rooty :: int
  winfo_width :: int
  winfo_height :: int

record CTkImage =
  image_file :: string
  image_size :: "int \<times> int"

datatype geometry_call =
    Grid "(string \<times> string) list"
  | Place "CTkFrame option" int int
  | Place_forget
  | Grid_forget

text \<open>
  A pending timer is a call \<^verbatim>\<open>self.after(ms, run, frame_index)\<close> that has not fired
  yet: the time it is due, the delay it was asked with, the frame list the closure
  \<^verbatim>\<open>run\<close> captured, and the argument.
\<close>

datatype timer = Timer (due: int) (ms: int) (captured: "AnimationFrame list") (arg: int)

subsection \<open>Character\<close>

text \<open>
  The attributes of \<^verbatim>\<open>Character.__init__\<close>, then what the widget finds around it:
  the master, the image the label shows, the image files that open, the clock of the
  event loop (milliseconds since the widget was made) and the pending timers in the order
  they were asked for. The files are those of the disk while the widget lives; no
  operation of the widget changes them.
\<close>

record Character =
  background_color :: string
  wrapper :: "geometry_call list"
  animations :: "string \<rightharpoonup> AnimationFrame list"
  position :: "int \<times> int"
  current_frame_index :: int
  images_path :: string
  size_c :: int
  frame :: "CTkFrame option"
  grid_cells :: "CTkFrame list list option"
  active_animation_name :: "string option"
  active_image :: "CTkImage option"
  master :: CTkFrame
  label_image :: "CTkImage option"
  files :: "string list"
  clock :: int
  timers :: "timer list"

text \<open>
  \<^verbatim>\<open>_update_position\<close>. The \<^verbatim>\<open>or\<close> chain is evaluated left to right, so
  \<^verbatim>\<open>grid_cells[row]\<close> is read only for a row in range. A position that has no cell
  returns without placing anything. \<^verbatim>\<open>parent.update_idletasks()\<close> is a call on the
  master and leaves no trace on the wrapper; \<open>//\<close> on integers is \<open>div\<close>, both round
  down.
\<close>

definition update_position :: "Character \<Rightarrow> (error + unit) \<times> Character" where
  "update_position self =
     (case grid_cells self of
        Some g \<Rightarrow>
          (let (row, col) = position self in
           if row < 0 \<or> col < 0 \<or> row \<ge> int (length g) \<or> col \<ge> int (length (g ! nat row))
           then (Inr (), self)
           else
             let target_cell = g ! nat row ! nat col;
                 parent = master self;
                 cell_x = winfo_rootx target_cell - winfo_rootx parent;
                 cell_y = winfo_rooty target_cell - winfo_rooty parent;
                 offset_x = (winfo_width target_cell - size_c self) div 2;
                 offset_y = (winfo_height target_cell - size_c self) div 2
             in (Inr (), self\<lparr>wrapper := wrapper self @ [Place None (cell_x + offset_x) (cell_y + offset_y)]\<rparr>))
      | None \<Rightarrow>
          (case frame self of
             Some f \<Rightarrow>
               (let (x, y) = position self in
                (Inr (), self\<lparr>wrapper := wrapper self @ [Place_forget, Grid_forget, Place (Some f) x y]\<rparr>))
           | None \<Rightarrow> (Inl (RuntimeError ''No frame or grid_cells was defined.''), self)))"

text \<open>
  \<^verbatim>\<open>set_position\<close>. In grid mode the position is checked against the number of rows and
  the length of the first row, and a position that fails the check returns \<open>False\<close>
  before anything is assigned.
\<close>

definition set_position :: "Character \<Rightarrow> int \<times> int \<Rightarrow> (error + bool) \<times> Character" where
  "set_position self pos =
     (let rejected =
        (case grid_cells self of
           None \<Rightarrow> False
         | Some g \<Rightarrow>
             (let (row, col) = pos;
                  rows = int (length g);
                  cols = (if rows \<noteq> 0 then int (length (g ! 0)) else 0)
              in \<not> (0 \<le> row \<and> row < rows \<and> 0 \<le> col \<and> col < cols)))
      in if rejected then (Inr False, self)
         else (case update_position (self\<lparr>position := pos\<rparr>) of
                 (Inl e, self') \<Rightarrow> (Inl e, self')
               | (Inr u, self') \<Rightarrow> (Inr True, self')))"

definition move :: "Character \<Rightarrow> int \<times> int \<Rightarrow> (error + bool) \<times> Character" where
  "move self offset =
     (let (dx, dy) = offset;
          (x, y) = position self
      in set_position self (x + dx, y + dy))"

definition current_position :: "Character \<Rightarrow> int \<times> int" where
  "current_position self = position self"

text \<open>\<^verbatim>\<open>show(**kwargs)\<close> hands its keyword arguments to the wrapper's \<^verbatim>\<open>grid\<close>.\<close>

definition show_c :: "Character \<Rightarrow> (string \<times> string) list \<Rightarrow> Character" where
  "show_c self kwargs = self\<lparr>wrapper := wrapper self @ [Grid kwargs]\<rparr>"

subsection \<open>The animation registry\<close>

text \<open>
  \<^verbatim>\<open>_register_animations(*animations)\<close>: the loop stops at the first name that is
  already a key; the animations before it stay registered.
\<close>

fun register_animations :: "Character \<Rightarrow> Animation list \<Rightarrow> (error + unit) \<times> Character" where
  "register_animations self [] = (Inr (), self)"
| "register_animations self (animation # rest) =
     (if animations self (name animation) \<noteq> None
      then (Inl (ValueError (''Duplicate animation '' @ apostrophe @ name animation @ apostrophe @ ''.'')), self)
      else register_animations
             (self\<lparr>animations := (animations self)(name animation \<mapsto> frames animation)\<rparr>) rest)"

definition get_animation_frames :: "Character \<Rightarrow> string \<Rightarrow> error + AnimationFrame list" where
  "get_animation_frames self nm =
     (case animations self nm of None \<Rightarrow> Inl (KeyError nm) | Some fs \<Rightarrow> Inr fs)"

text \<open>
  \<^verbatim>\<open>Character.__init__\<close>, every argument given: the defaults of the source are
  \<open>position = (0, 0)\<close>, \<open>images_path = ./assets/images/\<close>, \<open>size = 100\<close>,
  \<open>bg_color = transparent\<close> and \<open>None\<close> for the others. \<^verbatim>\<open>if animations:\<close> skips
  the registration for \<open>None\<close> and for the empty list. An exception of the registration
  leaves \<^verbatim>\<open>__init__\<close>, and no object is returned. The wrapper is created and the
  label is laid out inside it, which calls no geometry manager on the wrapper; neither
  \<open>frame\<close> nor \<open>grid_cells\<close> is looked at. The last parameter is no argument of
  \<^verbatim>\<open>__init__\<close>: it is the image files that open, which the object meets only when it
  plays.
\<close>

definition Character_init ::
  "CTkFrame \<Rightarrow> Animation list option \<Rightarrow> int \<times> int \<Rightarrow> string \<Rightarrow> int \<Rightarrow> string \<Rightarrow>
   CTkFrame option \<Rightarrow> CTkFrame list list option \<Rightarrow> string list \<Rightarrow> error + Character" where
  "Character_init mstr anims pos path sz bg_color fr cells disk =
     (let self = \<lparr>background_color = bg_color, wrapper = [], animations = Map.empty,
                  position = pos, current_frame_index = 0, images_path = path, size_c = sz,
                  frame = fr, grid_cells = cells, active_animation_name = None,
                  active_image = None, master = mstr, label_image = None,
                  files = disk, clock = 0, timers = []\<rparr>
      in case anims of
           None \<Rightarrow> Inr self
         | Some as \<Rightarrow>
             if as = [] then Inr self
             else (case register_animations self as of
                     (Inl e, self') \<Rightarrow> Inl e
                   | (Inr u, self') \<Rightarrow> Inr self'))"

text \<open>
  A client that registers in several calls, going on after a call that raised: the
  object is the one the call left behind.
\<close>

fun register_calls :: "Character \<Rightarrow> Animation list list \<Rightarrow> Character" where
  "register_calls self [] = self"
| "register_calls self (call # calls) = register_calls (snd (register_animations self call)) calls"

subsection \<open>Playback\<close>

text \<open>Python's \<^verbatim>\<open>xs[i]\<close>: a negative index counts from the end, anything else raises.\<close>

definition getitem :: "'a list \<Rightarrow> int \<Rightarrow> error + 'a" where
  "getitem xs i =
     (if 0 \<le> i \<and> i < int (length xs) then Inr (xs ! nat i)
      else if - int (length xs) \<le> i \<and> i < 0 then Inr (xs ! nat (i + int (length xs)))
      else Inl IndexError)"

text \<open>
  \<^verbatim>\<open>self.after(ms, run, frame_index)\<close>: the toolkit notes a timer, due \<open>ms\<close>
  milliseconds from now, behind those it has; it takes a negative delay for none.
\<close>

definition after :: "int \<Rightarrow> AnimationFrame list \<Rightarrow> int \<Rightarrow> Character \<Rightarrow> Character" where
  "after delay fs frame_index self =
     self\<lparr>timers := timers self @ [Timer (clock self + max 0 delay) delay fs frame_index]\<rparr>"

text \<open>
  The closure \<^verbatim>\<open>run(frame_index)\<close> of \<^verbatim>\<open>play_animation\<close>, with the list
  \<^verbatim>\<open>frames\<close> it captured as a parameter. It opens the image, keeps it, shows it on
  the label, and asks for the next call unless this was the last index. When the index
  is out of range or the image does not open, the exception leaves \<^verbatim>\<open>run\<close> before
  anything is assigned or asked for.
\<close>

definition run :: "AnimationFrame list \<Rightarrow> int \<Rightarrow> Character \<Rightarrow> (error + unit) \<times> Character" where
  "run fs frame_index self =
     (case getitem fs frame_index of
        Inl e \<Rightarrow> (Inl e, self)
      | Inr f \<Rightarrow>
          if images_path self @ filename f \<notin> set (files self)
          then (Inl (OSError (images_path self @ filename f)), self)
          else
            (let img = \<lparr>image_file = images_path self @ filename f,
                        image_size = (size_c self, size_c self)\<rparr>;
                 self1 = self\<lparr>active_image := Some img, label_image := Some img\<rparr>
             in if frame_index < int (length fs) - 1
                then (Inr (), after (duration f) fs (frame_index + 1) self1)
                else (Inr (), self1)))"

text \<open>
  \<^verbatim>\<open>play_animation(name)\<close>: the name is recorded before the lookup, the lookup raises
  \<^verbatim>\<open>KeyError\<close> for an unknown name, and the first call of \<^verbatim>\<open>run\<close> is asked for
  after the duration of the first frame.
\<close>

definition play_animation :: "Character \<Rightarrow> string \<Rightarrow> (error + unit) \<times> Character" where
  "play_animation self nm =
     (let self1 = self\<lparr>active_animation_name := Some nm\<rparr> in
      case animations self1 nm of
        None \<Rightarrow> (Inl (KeyError nm), self1)
      | Some fs \<Rightarrow>
          (case getitem fs 0 of
             Inl e \<Rightarrow> (Inl e, self1)
           | Inr f \<Rightarrow> (Inr (), after (duration f) fs 0 self1)))"

text \<open>
  The toolkit's event loop, as far as the widget's timers go. The timer that is due
  first fires, the one asked for first among those due at the same time: it leaves the
  queue, the clock is at least its due time, and its callback runs once. An exception in
  a callback is reported by the toolkit and the loop goes on. The loop is taken to be
  idle between timers and a callback to take no time.
\<close>

fun take_due :: "timer list \<Rightarrow> (timer \<times> timer list) option" where
  "take_due [] = None"
| "take_due (t # ts) =
     (case take_due ts of
        None \<Rightarrow> Some (t, [])
      | Some (u, us) \<Rightarrow> if due u < due t then Some (u, t # us) else Some (t, ts))"

text \<open>
  A tick is what an observer sees of a timer that fires: the delay it was asked with,
  the index \<^verbatim>\<open>run\<close> was called with, and either the exception of the callback or the
  image on the label when it has returned.
\<close>

type_synonym tick = "int \<times> int \<times> (error + CTkImage option)"

definition fire :: "Character \<Rightarrow> (tick \<times> Character) option" where
  "fire self =
     (case take_due (timers self) of
        None \<Rightarrow> None
      | Some (t, pending) \<Rightarrow>
          (case run (captured t) (arg t)
                  (self\<lparr>clock := max (clock self) (due t), timers := pending\<rparr>) of
             (Inl e, self1) \<Rightarrow> Some ((ms t, arg t, Inl e), self1)
           | (Inr u, self1) \<Rightarrow> Some ((ms t, arg t, Inr (label_image self1)), self1)))"

text \<open>What is left to happen on the pending timers: each can still ask for one call per
  remaining index.\<close>

definition pending_work :: "Character \<Rightarrow> nat" where
  "pending_work self =
     sum_list (map (\<lambda>t. Suc (nat (int (length (captured t)) - arg t))) (timers self))"

text \<open>The event loop until no timer is pending, and the ticks it made.\<close>

function mainloop :: "Character \<Rightarrow> tick list \<times> Character" where
  "mainloop self =
     (case fire self of
        None \<Rightarrow> ([], self)
      | Some (t, self1) \<Rightarrow> (let (ts, self2) = mainloop self1 in (t # ts, self2)))"
  by pat_completeness auto
termination
proof (relation "measure pending_work")
  show "wf (measure pending_work)" by simp
next
  fix self :: Character and x2 :: "tick \<times> Character" and k :: tick and self1 :: Character
  assume f: "fire self = Some x2" and x: "(k, self1) = x2"
  let ?w = "\<lambda>t. Suc (nat (int (length (captured t)) - arg t))"
  have split: "sum_list (map ?w ts) = ?w t + sum_list (map ?w us)"
    if "take_due ts = Some (t, us)" for ts t us
    using that
  proof (induction ts arbitrary: t us)
    case Nil
    then show ?case by simp
  next
    case (Cons a ts)
    show ?case
    proof (cases "take_due ts")
      case None
      then have "ts = []" by (cases ts) (auto split: option.splits if_splits)
      with Cons.prems None show ?thesis by simp
    next
      case (Some p)
      obtain u vs where p: "p = (u, vs)" by (cases p)
      have "sum_list (map ?w ts) = ?w u + sum_list (map ?w vs)"
        using Cons.IH Some p by simp
      with Cons.prems Some p show ?thesis by (auto split: if_splits)
    qed
  qed
  obtain t pending where td: "take_due (timers self) = Some (t, pending)"
    using f by (auto simp: fire_def split: option.splits)
  have s1: "self1 = snd (run (captured t) (arg t)
                           (self\<lparr>clock := max (clock self) (due t), timers := pending\<rparr>))"
    using f x td by (auto simp: fire_def split: prod.splits sum.splits)
  have "pending_work self1 \<le> sum_list (map ?w pending) + nat (int (length (captured t)) - arg t)"
    unfolding s1 pending_work_def run_def after_def
    by (auto simp: Let_def split: sum.splits)
  then have "pending_work self1 < pending_work self"
    using split [OF td] by (simp add: pending_work_def)
  then show "(self1, self) \<in> measure pending_work" by simp
qed

declare mainloop.simps [simp del]

text \<open>
  One list is another with a timer put in somewhere: how the queue with the timer of a
  playback relates to the queue without it.
\<close>

inductive put_in :: "timer \<Rightarrow> timer list \<Rightarrow> timer list \<Rightarrow> bool" where
  here: "put_in x ts (x # ts)"
| later: "put_in x ts ts' \<Longrightarrow> put_in x (t # ts) (t # ts')"

text \<open>
  What a callback leaves for the observer, and the timers it asks for: both read off
  \<open>run\<close>.
\<close>

definition shown :: "Character \<Rightarrow> AnimationFrame list \<Rightarrow> int \<Rightarrow> error + CTkImage option" where
  "shown self fs a =
     (case run fs a self of (Inl e, self1) \<Rightarrow> Inl e | (Inr u, self1) \<Rightarrow> Inr (label_image self1))"

definition asked :: "Character \<Rightarrow> AnimationFrame list \<Rightarrow> int \<Rightarrow> timer list" where
  "asked self fs a = drop (length (timers self)) (timers (snd (run fs a self)))"

subsection \<open>Objects of the demo applications\<close>

text \<open>
  Concrete objects in the manner of the three demo applications, on which the theorems
  below are instantiated: a master window, grid cells of 80 pixels laid out 88 pixels
  apart, a rectangular grid and two ragged ones, the stage of the animation preview, and
  its "blink" animation.
\<close>

definition demo_master :: CTkFrame where
  "demo_master = \<lparr>winfo_rootx = 0, winfo_rooty = 0, winfo_width = 800, winfo_height = 600\<rparr>"

definition demo_cell :: "int \<Rightarrow> int \<Rightarrow> CTkFrame" where
  "demo_cell r c = \<lparr>winfo_rootx = 88 * c, winfo_rooty = 88 * r, winfo_width = 80, winfo_height = 80\<rparr>"


definition short_second_row :: "CTkFrame list list" where
  "short_second_row = [[demo_cell 0 0, demo_cell 0 1], [demo_cell 1 0]]"

definition long_second_row :: "CTkFrame list list" where
  "long_second_row = [[demo_cell 0 0], [demo_cell 1 0, demo_cell 1 1]]"

definition demo_stage :: CTkFrame where
  "demo_stage = \<lparr>winfo_rootx = 40, winfo_rooty = 60, winfo_width = 420, winfo_height = 320\<rparr>"

definition blink :: "AnimationFrame list" where
  "blink = [AnimationFrame_init ''blink_0001.png'' None,
            AnimationFrame_init ''blink_0002.png'' (Some 100),
            AnimationFrame_init ''blink_0003.png'' (Some 100),
            AnimationFrame_init ''blink_0004.png'' None]"

definition idle :: "AnimationFrame list" where
  "idle = [AnimationFrame_init ''blink_0001.png'' None]"

definition demo_files :: "string list" where
  "demo_files = [''./assets/images/blink_0001.png'', ''./assets/images/blink_0002.png'',
                 ''./assets/images/blink_0003.png'', ''./assets/images/blink_0004.png'']"

text \<open>A character as \<^verbatim>\<open>__init__\<close> leaves it when no animation is given.\<close>

definition blank :: "CTkFrame option \<Rightarrow> CTkFrame list list option \<Rightarrow> Character" where
  "blank fr cells =
     \<lparr>background_color = ''transparent'', wrapper = [], animations = Map.empty,
      position = (0, 0), current_frame_index = 0, images_path = ''./assets/images/'',
      size_c = 54, frame = fr, grid_cells = cells, active_animation_name = None,
      active_image = None, master = demo_master, label_image = None,
      files = demo_files, clock = 0, timers = []\<rparr>"

text \<open>The animations of the demos, and a character of the animation preview.\<close>

definition idle_animation :: Animation where
  "idle_animation = \<lparr>name = ''idle'', frames = idle\<rparr>"

definition blink_animation :: Animation where
  "blink_animation = \<lparr>name = ''blink'', frames = blink\<rparr>"

definition idle_again :: Animation where
  "idle_again = \<lparr>name = ''idle'', frames = blink\<rparr>"

definition look_up :: Animation where
  "look_up = \<lparr>name = ''look_up'', frames = idle\<rparr>"

definition registered :: Character where
  "registered = snd (register_animations (blank (Some demo_stage) None) [idle_animation, blink_animation])"

definition stage_character :: Character where
  "stage_character = (blank (Some demo_stage) None)\<lparr>animations := [''blink'' \<mapsto> blink]\<rparr>"

text \<open>Three frames of 10, 20 and 30 milliseconds, and a character that plays them from a
  given disk.\<close>

definition counting :: "AnimationFrame list" where
  "counting = [AnimationFrame_init ''a.png'' (Some 10),
               AnimationFrame_init ''b.png'' (Some 20),
               AnimationFrame_init ''c.png'' (Some 30)]"

definition counter :: "string list \<Rightarrow> Character" where
  "counter disk = (blank (Some demo_stage) None)\<lparr>animations := [''count'' \<mapsto> counting], files := disk\<rparr>"

section \<open>Properties\<close>

subsection \<open>Positions\<close>

text \<open>In grid mode \<^verbatim>\<open>_update_position\<close> never raises and never touches the position.\<close>

lemma update_position_grid_ok:
  "grid_cells self = Some g \<Longrightarrow>
     fst (update_position self) = Inr () \<and>
     position (snd (update_position self)) = position self"
  by (auto simp: update_position_def Let_def split: prod.splits)

lemma update_position_position:
  "position (snd (update_position self)) = position self"
  by (auto simp: update_position_def Let_def split: option.splits prod.splits)

lemma set_position_cases:
  "set_position self pos = (Inr False, self)
   \<or> set_position self pos
        = (case update_position (self\<lparr>position := pos\<rparr>) of
             (Inl e, self') \<Rightarrow> (Inl e, self')
           | (Inr u, self') \<Rightarrow> (Inr True, self'))"
  by (simp add: set_position_def Let_def)

lemma set_position_True:
  assumes "fst (set_position self pos) = Inr True"
  shows "position (snd (set_position self pos)) = pos"
proof -
  obtain r s where u: "update_position (self\<lparr>position := pos\<rparr>) = (r, s)"
    by (cases "update_position (self\<lparr>position := pos\<rparr>)")
  then have "position s = pos"
    using update_position_position [of "self\<lparr>position := pos\<rparr>"] by simp
  then show ?thesis
    using set_position_cases [of self pos] assms u by (cases r) auto
qed

lemma set_position_False:
  assumes "fst (set_position self pos) = Inr False"
  shows "snd (set_position self pos) = self"
proof -
  obtain r s where u: "update_position (self\<lparr>position := pos\<rparr>) = (r, s)"
    by (cases "update_position (self\<lparr>position := pos\<rparr>)")
  show ?thesis
    using set_position_cases [of self pos] assms u by (cases r) auto
qed

lemma set_position_grid_check:
  assumes "grid_cells self = Some g"
  shows "(0 \<le> row \<and> row < int (length g) \<and> 0 \<le> col \<and> col < (case g of [] \<Rightarrow> 0 | r # _ \<Rightarrow> int (length r))
            \<longrightarrow> fst (set_position self (row, col)) = Inr True)
       \<and> (\<not> (0 \<le> row \<and> row < int (length g) \<and> 0 \<le> col \<and> col < (case g of [] \<Rightarrow> 0 | r # _ \<Rightarrow> int (length r)))
            \<longrightarrow> set_position self (row, col) = (Inr False, self))"
proof (cases g)
  case Nil
  with assms show ?thesis by (auto simp: set_position_def)
next
  case (Cons r rs)
  have up: "fst (update_position (self\<lparr>position := (row, col)\<rparr>)) = Inr ()"
    using update_position_grid_ok [of "self\<lparr>position := (row, col)\<rparr>" g] assms by simp
  show ?thesis
    using assms Cons up
    by (auto simp: set_position_def Let_def split: prod.splits sum.splits)
qed
text \<open>
  On a grid whose rows all have the length of the first, a matrix, the positions that
  \<open>set_position\<close> accepts are the positions that have a cell.
\<close>

lemma set_position_matrix:
  assumes "grid_cells self = Some g" and "\<forall>r \<in> set g. length r = length (g ! 0)"
  shows "(fst (set_position self (row, col)) = Inr True)
           = (0 \<le> row \<and> row < int (length g) \<and> 0 \<le> col \<and> col < int (length (g ! nat row)))"
proof (cases "0 \<le> row \<and> row < int (length g)")
  case False
  then show ?thesis
    using set_position_grid_check [OF assms(1), of row col] by auto
next
  case True
  then have "nat row < length g" by linarith
  then have "g ! nat row \<in> set g" by (rule nth_mem)
  then have "length (g ! nat row) = length (g ! 0)" using assms(2) by blast
  moreover have "(case g of [] \<Rightarrow> 0 | r # _ \<Rightarrow> int (length r)) = int (length (g ! 0))"
    using True by (cases g) auto
  ultimately show ?thesis
    using set_position_grid_check [OF assms(1), of row col] by auto
qed

text \<open>
  Claim C1. In grid mode a position outside the grid is to be rejected, with \<open>False\<close>
  and the stored position unchanged, and a position within it accepted and stored. On a
  grid whose rows differ in length \<open>set_position\<close> does otherwise, since it takes the
  number of columns from the first row, where \<^verbatim>\<open>_update_position\<close> takes it from the
  row addressed. With a second row of one cell under a first row of two, the position
  \<open>(1, 1)\<close> has no cell: it is accepted and stored, and nothing is placed. With a
  second row of two cells under a first row of one, the position \<open>(1, 1)\<close> has a cell:
  it is rejected.
\<close>

theorem set_position_ragged_grid:
  "length (short_second_row ! 1) = 1
   \<and> set_position (blank None (Some short_second_row)) (1, 1)
       = (Inr True, (blank None (Some short_second_row))\<lparr>position := (1, 1)\<rparr>)
   \<and> update_position ((blank None (Some short_second_row))\<lparr>position := (1, 1)\<rparr>)
       = (Inr (), (blank None (Some short_second_row))\<lparr>position := (1, 1)\<rparr>)
   \<and> length (long_second_row ! 1) = 2
   \<and> set_position (blank None (Some long_second_row)) (1, 1)
       = (Inr False, blank None (Some long_second_row))"
  by (simp add: set_position_def update_position_def blank_def short_second_row_def
      long_second_row_def)

text \<open>
  Claim C8. In frame mode (a frame, no grid) \<open>set_position\<close> returns \<open>True\<close> for
  every pair of integers and stores it; no bound is checked. The wrapper is placed in the
  frame at that very position.
\<close>

theorem set_position_frame:
  assumes "frame self = Some f" and "grid_cells self = None"
  shows "set_position self (x, y) =
           (Inr True, self\<lparr>position := (x, y),
                           wrapper := wrapper self @ [Place_forget, Grid_forget, Place (Some f) x y]\<rparr>)"
  using assms by (simp add: set_position_def update_position_def)

theorem set_position_frame_witness:
  "frame (blank (Some demo_stage) None) = Some demo_stage
   \<and> grid_cells (blank (Some demo_stage) None) = None
   \<and> fst (set_position (blank (Some demo_stage) None) (-5, 100000)) = Inr True
   \<and> position (snd (set_position (blank (Some demo_stage) None) (-5, 100000))) = (-5, 100000)"
proof -
  have f: "frame (blank (Some demo_stage) None) = Some demo_stage"
    and g: "grid_cells (blank (Some demo_stage) None) = None"
    by (simp_all add: blank_def)
  show ?thesis
    using f g set_position_frame [OF f g, of "-5" 100000] by simp
qed
text \<open>
  Claim C9. In grid mode \<open>set_position\<close> accepts \<open>(row, col)\<close> exactly when
  \<open>0 \<le> row < len(grid_cells)\<close> and \<open>0 \<le> col < len(grid_cells[0])\<close>; the length
  of the row addressed plays no part. It never raises, and what it does not accept it
  rejects with the character unchanged. With no row at all, every \<open>set_position\<close> and
  every \<open>move\<close> is rejected.
\<close>

theorem set_position_first_row:
  assumes "grid_cells self = Some g"
  shows "((fst (set_position self (row, col)) = Inr True)
            = (0 \<le> row \<and> row < int (length g) \<and> 0 \<le> col
               \<and> col < (case g of [] \<Rightarrow> 0 | r # _ \<Rightarrow> int (length r))))
       \<and> (fst (set_position self (row, col)) \<noteq> Inr True
            \<longrightarrow> set_position self (row, col) = (Inr False, self))
       \<and> (g = [] \<longrightarrow> set_position self (row, col) = (Inr False, self)
                      \<and> move self (dx, dy) = (Inr False, self))"
proof -
  have up: "fst (update_position (self\<lparr>position := p\<rparr>)) = Inr ()" for p
    using update_position_grid_ok [of "self\<lparr>position := p\<rparr>" g] assms by simp
  have 1: "(fst (set_position self (row, col)) = Inr True)
            = (0 \<le> row \<and> row < int (length g) \<and> 0 \<le> col
               \<and> col < (case g of [] \<Rightarrow> 0 | r # _ \<Rightarrow> int (length r)))"
    using assms up [of "(row, col)"]
    by (cases g) (auto simp: set_position_def Let_def split: prod.splits sum.splits)
  have 2: "fst (set_position self (row, col)) \<noteq> Inr True
            \<longrightarrow> set_position self (row, col) = (Inr False, self)"
    using assms up [of "(row, col)"]
    by (auto simp: set_position_def Let_def split: prod.splits sum.splits)
  have 3: "g = [] \<longrightarrow> set_position self p = (Inr False, self)" for p
    using assms by (cases p) (auto simp: set_position_def)
  have 4: "g = [] \<longrightarrow> move self (dx, dy) = (Inr False, self)"
    using 3 by (simp add: move_def split: prod.splits)
  show ?thesis using 1 2 3 4 by blast
qed

theorem set_position_first_row_witness:
  "grid_cells (blank None (Some short_second_row)) = Some short_second_row
   \<and> length (short_second_row ! 1) = 1
   \<and> fst (set_position (blank None (Some short_second_row)) (1, 1)) = Inr True
   \<and> grid_cells (blank None (Some long_second_row)) = Some long_second_row
   \<and> length (long_second_row ! 1) = 2
   \<and> set_position (blank None (Some long_second_row)) (1, 1)
       = (Inr False, blank None (Some long_second_row))
   \<and> grid_cells (blank None (Some [])) = Some []
   \<and> set_position (blank None (Some [])) (0, 0) = (Inr False, blank None (Some []))
   \<and> move (blank None (Some [])) (0, 1) = (Inr False, blank None (Some []))"
proof -
  have s: "grid_cells (blank None (Some short_second_row)) = Some short_second_row"
    and l: "grid_cells (blank None (Some long_second_row)) = Some long_second_row"
    and e: "grid_cells (blank None (Some [])) = Some []"
    by (simp_all add: blank_def)
  have "fst (set_position (blank None (Some short_second_row)) (1, 1)) = Inr True"
    using set_position_first_row [OF s, of 1 1] by (simp add: short_second_row_def)
  moreover have "set_position (blank None (Some long_second_row)) (1, 1)
       = (Inr False, blank None (Some long_second_row))"
    using set_position_first_row [OF l, of 1 1] by (simp add: long_second_row_def)
  moreover have "set_position (blank None (Some [])) (0, 0) = (Inr False, blank None (Some []))"
    using set_position_first_row [OF e, of 0 0, THEN conjunct2, THEN conjunct2] by blast
  moreover have "move (blank None (Some [])) (0, 1) = (Inr False, blank None (Some []))"
    using set_position_first_row [OF e, of 0 0 0 1, THEN conjunct2, THEN conjunct2] by blast
  moreover have "length (short_second_row ! 1) = 1" "length (long_second_row ! 1) = 2"
    by (simp_all add: short_second_row_def long_second_row_def)
  ultimately show ?thesis
    using s l e by blast
qed

text \<open>
  Claim C4. \<open>move\<close> is to reject, with \<open>False\<close> and the position unchanged, an offset
  that takes the character out of bounds. In grid mode it does, within the bounds that
  \<open>set_position\<close> checks. In frame mode it does not: from \<open>(0, 0)\<close> on a stage of 420
  by 320 pixels the offset \<open>(-15, 100000)\<close> is accepted, stored and placed.
\<close>

theorem move_beyond_frame:
  "winfo_width demo_stage = 420 \<and> winfo_height demo_stage = 320
   \<and> position (blank (Some demo_stage) None) = (0, 0)
   \<and> move (blank (Some demo_stage) None) (-15, 100000)
       = (Inr True,
          (blank (Some demo_stage) None)
            \<lparr>position := (-15, 100000),
             wrapper := [Place_forget, Grid_forget, Place (Some demo_stage) (-15) 100000]\<rparr>)"
  by (simp add: move_def set_position_def update_position_def blank_def demo_stage_def)

subsection \<open>Animations\<close>

text \<open>
  Claim C2. An \<open>Animation\<close> of no frames raises \<open>ValueError\<close>; an \<open>Animation\<close>
  that was constructed holds at least one frame; and a non-empty list of frames gives the
  \<open>Animation\<close> of that name and that very list.
\<close>

theorem Animation_init_frames:
  "Animation_init nm []
     = Inl (ValueError (''The animation '' @ apostrophe @ nm @ apostrophe @ '' cannot be empty.''))
   \<and> (Animation_init nm fs = Inr a \<longrightarrow> 1 \<le> length (frames a))
   \<and> (fs \<noteq> [] \<longrightarrow> Animation_init nm fs = Inr \<lparr>name = nm, frames = fs\<rparr>)"
  by (cases fs) (auto simp: Animation_init_def)

theorem Animation_init_frames_witness:
  "Animation_init ''idle'' [] = Inl (ValueError ''The animation 'idle' cannot be empty.'')
   \<and> idle \<noteq> []
   \<and> Animation_init ''idle'' idle = Inr \<lparr>name = ''idle'', frames = idle\<rparr>
   \<and> 1 \<le> length (frames \<lparr>name = ''idle'', frames = idle\<rparr>)"
proof -
  have n: "idle \<noteq> []" by (simp add: idle_def)
  have i: "Animation_init ''idle'' idle = Inr \<lparr>name = ''idle'', frames = idle\<rparr>"
    using Animation_init_frames [of "''idle''" idle] n by simp
  show ?thesis
    using n i Animation_init_frames [of "''idle''" idle "\<lparr>name = ''idle'', frames = idle\<rparr>"]
    by (simp add: apostrophe_def)
qed
subsection \<open>The registry\<close>


lemma register_animations_keeps:
  "animations self n = Some fs \<Longrightarrow> animations (snd (register_animations self as)) n = Some fs"
proof (induction as arbitrary: self)
  case Nil
  then show ?case by simp
next
  case (Cons a as)
  show ?case
  proof (cases "animations self (name a) = None")
    case False
    with Cons.prems show ?thesis by simp
  next
    case True
    let ?s = "self\<lparr>animations := (animations self)(name a \<mapsto> frames a)\<rparr>"
    have "n \<noteq> name a" using True Cons.prems by auto
    then have "animations ?s n = Some fs" using Cons.prems by simp
    then have "animations (snd (register_animations ?s as)) n = Some fs"
      by (rule Cons.IH)
    then show ?thesis using True by simp
  qed
qed

lemma register_animations_succeeds:
  "(fst (register_animations self as) = Inr ())
     = (distinct (map name as) \<and> (\<forall>a \<in> set as. animations self (name a) = None))"
proof (induction as arbitrary: self)
  case Nil
  then show ?case by simp
next
  case (Cons a as)
  show ?case
  proof (cases "animations self (name a) = None")
    case False
    then show ?thesis by auto
  next
    case True
    let ?s = "self\<lparr>animations := (animations self)(name a \<mapsto> frames a)\<rparr>"
    have r: "register_animations self (a # as) = register_animations ?s as"
      using True by simp
    have q: "(\<forall>b \<in> set as. animations ?s (name b) = None)
            = (name a \<notin> name ` set as \<and> (\<forall>b \<in> set as. animations self (name b) = None))"
      by (auto simp: image_iff)
    show ?thesis
      unfolding r Cons.IH [of ?s] q using True by auto
  qed
qed

lemma register_animations_errors:
  "fst (register_animations self as) = Inr ()
   \<or> (\<exists>a \<in> set as. fst (register_animations self as)
        = Inl (ValueError (''Duplicate animation '' @ apostrophe @ name a @ apostrophe @ ''.'')))"
  by (induction as arbitrary: self) auto

lemma register_animations_stores:
  "fst (register_animations self as) = Inr () \<Longrightarrow> a \<in> set as
     \<Longrightarrow> animations (snd (register_animations self as)) (name a) = Some (frames a)"
proof (induction as arbitrary: self)
  case Nil
  then show ?case by simp
next
  case (Cons b as)
  let ?s = "self\<lparr>animations := (animations self)(name b \<mapsto> frames b)\<rparr>"
  have n: "animations self (name b) = None"
    using Cons.prems(1) by (auto split: if_splits)
  then have r: "register_animations self (b # as) = register_animations ?s as" by simp
  show ?case
  proof (cases "a = b")
    case True
    have "animations ?s (name a) = Some (frames a)" using True by simp
    then show ?thesis unfolding r by (rule register_animations_keeps)
  next
    case False
    then have "a \<in> set as" using Cons.prems(2) by simp
    then show ?thesis unfolding r using Cons.IH [of ?s] Cons.prems(1) r by simp
  qed
qed

lemma register_animations_first:
  "animations self n = None \<Longrightarrow> animations (snd (register_animations self as)) n = Some fs
     \<Longrightarrow> map_of (map (\<lambda>a. (name a, frames a)) as) n = Some fs"
proof (induction as arbitrary: self)
  case Nil
  then show ?case by simp
next
  case (Cons b as)
  let ?s = "self\<lparr>animations := (animations self)(name b \<mapsto> frames b)\<rparr>"
  show ?case
  proof (cases "animations self (name b) = None")
    case False
    then show ?thesis using Cons.prems by simp
  next
    case True
    then have r: "register_animations self (b # as) = register_animations ?s as" by simp
    show ?thesis
    proof (cases "name b = n")
      case True
      then have "animations ?s n = Some (frames b)" by simp
      then have "animations (snd (register_animations ?s as)) n = Some (frames b)"
        by (rule register_animations_keeps)
      then show ?thesis using Cons.prems(2) r True by simp
    next
      case False
      then have "animations ?s n = None" using Cons.prems(1) by simp
      then have "map_of (map (\<lambda>a. (name a, frames a)) as) n = Some fs"
        using Cons.IH [of ?s] Cons.prems(2) r by simp
      then show ?thesis using False by simp
    qed
  qed
qed

lemma register_calls_keeps:
  "animations self n = Some fs \<Longrightarrow> animations (register_calls self calls) n = Some fs"
  by (induction calls arbitrary: self) (simp_all add: register_animations_keeps)

lemma Character_init_succeeds:
  "isl (Character_init mstr anims pos path sz bg fr cells disk)
     = (case anims of None \<Rightarrow> False | Some as \<Rightarrow> \<not> distinct (map name as))"
proof (cases anims)
  case None
  then show ?thesis by (simp add: Character_init_def)
next
  case (Some as)
  let ?s = "\<lparr>background_color = bg, wrapper = [], animations = Map.empty,
             position = pos, current_frame_index = 0, images_path = path, size_c = sz,
             frame = fr, grid_cells = cells, active_animation_name = None,
             active_image = None, master = mstr, label_image = None,
             files = disk, clock = 0, timers = []\<rparr>"
  obtain r b where rb: "register_animations ?s as = (r, b)"
    by (cases "register_animations ?s as")
  have "(r = Inr ()) = distinct (map name as)"
    using register_animations_succeeds [of ?s as] rb by simp
  then show ?thesis
    using Some rb by (cases r) (auto simp: Character_init_def Let_def)
qed


lemma Character_init_registry:
  assumes "Character_init mstr (Some as) pos path sz bg fr cells disk = Inr c" and "a \<in> set as"
  shows "animations c (name a) = Some (frames a)"
proof -
  let ?s = "\<lparr>background_color = bg, wrapper = [], animations = Map.empty,
             position = pos, current_frame_index = 0, images_path = path, size_c = sz,
             frame = fr, grid_cells = cells, active_animation_name = None,
             active_image = None, master = mstr, label_image = None,
             files = disk, clock = 0, timers = []\<rparr>"
  obtain r b where rb: "register_animations ?s as = (r, b)"
    by (cases "register_animations ?s as")
  have ne: "as \<noteq> []" using assms(2) by auto
  have "r = Inr () \<and> c = b"
    using assms(1) rb ne by (cases r) (auto simp: Character_init_def Let_def)
  then have "fst (register_animations ?s as) = Inr ()" "c = snd (register_animations ?s as)"
    using rb by simp_all
  then show ?thesis
    using register_animations_stores [of ?s as a] assms(2) by simp
qed

text \<open>
  Claim C5. Names are unique in the registry. Registering an animation whose name is a
  key raises \<open>ValueError\<close> and leaves the character as it was; a call raises exactly
  when one of its names is a key already or occurs twice in the call; whatever calls
  follow, a name that is registered keeps the frames it has; and a name that a call adds
  gets the frames of the first animation of that call that bears it.
\<close>

theorem register_animations_unique:
  "(animations self (name a) \<noteq> None
      \<longrightarrow> register_animations self (a # rest)
            = (Inl (ValueError (''Duplicate animation '' @ apostrophe @ name a @ apostrophe @ ''.'')), self))
   \<and> ((\<exists>b \<in> set as. fst (register_animations self as)
            = Inl (ValueError (''Duplicate animation '' @ apostrophe @ name b @ apostrophe @ ''.'')))
        = (\<not> distinct (map name as) \<or> (\<exists>b \<in> set as. animations self (name b) \<noteq> None)))
   \<and> (animations self n = Some fs \<longrightarrow> animations (register_calls self calls) n = Some fs)
   \<and> (animations self n = None \<and> animations (snd (register_animations self as)) n = Some fs
        \<longrightarrow> map_of (map (\<lambda>b. (name b, frames b)) as) n = Some fs)"
proof -
  have 1: "animations self (name a) \<noteq> None
      \<longrightarrow> register_animations self (a # rest)
            = (Inl (ValueError (''Duplicate animation '' @ apostrophe @ name a @ apostrophe @ ''.'')), self)"
    by simp
  have "(\<exists>b \<in> set as. fst (register_animations self as)
            = Inl (ValueError (''Duplicate animation '' @ apostrophe @ name b @ apostrophe @ ''.'')))
        = (fst (register_animations self as) \<noteq> Inr ())"
    using register_animations_errors [of self as] by auto
  then have 2: "(\<exists>b \<in> set as. fst (register_animations self as)
            = Inl (ValueError (''Duplicate animation '' @ apostrophe @ name b @ apostrophe @ ''.'')))
        = (\<not> distinct (map name as) \<or> (\<exists>b \<in> set as. animations self (name b) \<noteq> None))"
    unfolding register_animations_succeeds [of self as] by auto
  have 3: "animations self n = Some fs \<longrightarrow> animations (register_calls self calls) n = Some fs"
    using register_calls_keeps by blast
  have 4: "animations self n = None \<and> animations (snd (register_animations self as)) n = Some fs
        \<longrightarrow> map_of (map (\<lambda>b. (name b, frames b)) as) n = Some fs"
    using register_animations_first by blast
  show ?thesis using 1 2 3 4 by blast
qed

theorem register_animations_unique_witness:
  "animations registered (name idle_again) = Some idle
   \<and> register_animations registered [idle_again]
       = (Inl (ValueError ''Duplicate animation 'idle'.''), registered)
   \<and> fst (register_animations registered [look_up, idle_again, look_up])
       = Inl (ValueError ''Duplicate animation 'idle'.'')
   \<and> animations (register_calls registered [[look_up, idle_again], [idle_again], [look_up]]) ''idle''
       = Some idle
   \<and> animations registered ''look_up'' = None
   \<and> animations (snd (register_animations registered [look_up, idle_again])) ''look_up'' = Some idle
   \<and> map_of (map (\<lambda>b. (name b, frames b)) [look_up, idle_again]) ''look_up'' = Some idle"
proof -
  have r: "animations registered ''idle'' = Some idle" "animations registered ''look_up'' = None"
    by (simp_all add: registered_def idle_animation_def blink_animation_def blank_def)
  have n: "name idle_again = ''idle''" by (simp add: idle_again_def)
  have a: "register_animations registered [idle_again]
       = (Inl (ValueError ''Duplicate animation 'idle'.''), registered)"
    using register_animations_unique [of registered idle_again "[]"] r n
    by (simp add: apostrophe_def)
  have b: "fst (register_animations registered [look_up, idle_again, look_up])
       = Inl (ValueError ''Duplicate animation 'idle'.'')"
    using r by (simp add: look_up_def idle_again_def apostrophe_def)
  have c: "animations (register_calls registered [[look_up, idle_again], [idle_again], [look_up]]) ''idle''
       = Some idle"
    using register_animations_unique [of registered _ _ _ "''idle''" idle] r by blast
  have d: "animations (snd (register_animations registered [look_up, idle_again])) ''look_up'' = Some idle"
    using r by (simp add: look_up_def idle_again_def)
  have e: "map_of (map (\<lambda>b. (name b, frames b)) [look_up, idle_again]) ''look_up'' = Some idle"
    using register_animations_unique [of registered _ _ "[look_up, idle_again]" "''look_up''" idle] r d
    by blast
  show ?thesis using r n a b c d e by simp
qed

text \<open>
  Claim C10. After a registration that succeeded, and after a construction that
  succeeded, \<open>get_animation_frames\<close> on the name of any of the animations returns the
  very list of frames of that animation. Both succeed when the names are distinct (and,
  for the registration, new).
\<close>

theorem registration_roundtrip:
  "(fst (register_animations self as) = Inr () \<and> a \<in> set as
      \<longrightarrow> get_animation_frames (snd (register_animations self as)) (name a) = Inr (frames a))
   \<and> (Character_init mstr (Some as) pos path sz bg fr cells disk = Inr c \<and> a \<in> set as
      \<longrightarrow> get_animation_frames c (name a) = Inr (frames a))
   \<and> (distinct (map name as) \<and> (\<forall>b \<in> set as. animations self (name b) = None)
      \<longrightarrow> fst (register_animations self as) = Inr ())
   \<and> (distinct (map name as)
      \<longrightarrow> (\<exists>c'. Character_init mstr (Some as) pos path sz bg fr cells disk = Inr c'))"
proof -
  have 1: "fst (register_animations self as) = Inr () \<and> a \<in> set as
      \<longrightarrow> get_animation_frames (snd (register_animations self as)) (name a) = Inr (frames a)"
    using register_animations_stores [of self as a] by (simp add: get_animation_frames_def)
  have 2: "Character_init mstr (Some as) pos path sz bg fr cells disk = Inr c \<and> a \<in> set as
      \<longrightarrow> get_animation_frames c (name a) = Inr (frames a)"
    using Character_init_registry [of mstr as pos path sz bg fr cells disk c a]
    by (simp add: get_animation_frames_def)
  have 3: "distinct (map name as) \<and> (\<forall>b \<in> set as. animations self (name b) = None)
      \<longrightarrow> fst (register_animations self as) = Inr ()"
    by (simp add: register_animations_succeeds)
  have 4: "distinct (map name as)
      \<longrightarrow> (\<exists>c'. Character_init mstr (Some as) pos path sz bg fr cells disk = Inr c')"
    using Character_init_succeeds [of mstr "Some as" pos path sz bg fr cells disk]
    by (cases "Character_init mstr (Some as) pos path sz bg fr cells disk") auto
  show ?thesis using 1 2 3 4 by blast
qed

theorem registration_roundtrip_witness:
  "distinct (map name [idle_animation, blink_animation])
   \<and> blink_animation \<in> set [idle_animation, blink_animation]
   \<and> animations (blank (Some demo_stage) None) (name idle_animation) = None
   \<and> animations (blank (Some demo_stage) None) (name blink_animation) = None
   \<and> fst (register_animations (blank (Some demo_stage) None) [idle_animation, blink_animation]) = Inr ()
   \<and> get_animation_frames
        (snd (register_animations (blank (Some demo_stage) None) [idle_animation, blink_animation]))
        ''blink'' = Inr blink
   \<and> \<not> isl (Character_init demo_master (Some [idle_animation, blink_animation]) (0, 0)
              ''./assets/images/'' 100 ''transparent'' (Some demo_stage) None demo_files)
   \<and> get_animation_frames
        (projr (Character_init demo_master (Some [idle_animation, blink_animation]) (0, 0)
              ''./assets/images/'' 100 ''transparent'' (Some demo_stage) None demo_files))
        ''blink'' = Inr blink"
proof -
  let ?as = "[idle_animation, blink_animation]"
  let ?s = "blank (Some demo_stage) None"
  have d: "distinct (map name ?as)"
    by (simp add: idle_animation_def blink_animation_def)
  have m: "blink_animation \<in> set ?as" by simp
  have e1: "animations ?s (name idle_animation) = None"
    and e2: "animations ?s (name blink_animation) = None"
    by (simp_all add: blank_def)
  then have e: "\<forall>b \<in> set ?as. animations ?s (name b) = None" by simp
  have nb: "name blink_animation = ''blink''" "frames blink_animation = blink"
    by (simp_all add: blink_animation_def)
  note rt = registration_roundtrip [of ?s ?as blink_animation demo_master "(0, 0)"
      "''./assets/images/''" 100 "''transparent''" "Some demo_stage" None demo_files]
  have ok: "fst (register_animations ?s ?as) = Inr ()"
    using rt d e by blast
  have g: "get_animation_frames (snd (register_animations ?s ?as)) ''blink'' = Inr blink"
    using rt ok m nb by metis
  obtain c where c: "Character_init demo_master (Some ?as) (0, 0)
              ''./assets/images/'' 100 ''transparent'' (Some demo_stage) None demo_files = Inr c"
    using rt d by blast
  have "get_animation_frames c ''blink'' = Inr blink"
    using registration_roundtrip [of ?s ?as blink_animation demo_master "(0, 0)"
      "''./assets/images/''" 100 "''transparent''" "Some demo_stage" None demo_files c] c m nb by metis
  then show ?thesis using d m e1 e2 ok g c by simp
qed
subsection \<open>Construction\<close>



subsection \<open>Playback\<close>

text \<open>The timer that fires is one that is due first, and it leaves the queue.\<close>

lemma getitem_nat: "i < length xs \<Longrightarrow> getitem xs (int i) = Inr (xs ! i)"
  by (simp add: getitem_def)

lemma take_due_None: "(take_due ts = None) = (ts = [])"
  by (cases ts) (auto split: option.splits)

lemma take_due_least:
  "take_due ts = Some (u, us) \<Longrightarrow> t \<in> set ts \<Longrightarrow> due u \<le> due t"
proof (induction ts arbitrary: u us t)
  case Nil
  then show ?case by simp
next
  case (Cons a ts)
  show ?case
  proof (cases "take_due ts")
    case None
    then have "ts = []" by (simp add: take_due_None)
    with Cons.prems None show ?thesis by simp
  next
    case (Some p)
    obtain v vs where p: "p = (v, vs)" by (cases p)
    have ih: "due v \<le> due t'" if "t' \<in> set ts" for t'
      using Cons.IH [of v vs t'] Some p that by simp
    show ?thesis
    proof (cases "due v < due a")
      case True
      then have "u = v" using Cons.prems(1) Some p by simp
      then show ?thesis using Cons.prems(2) ih True by auto
    next
      case False
      then have "u = a" using Cons.prems(1) Some p by simp
      then show ?thesis using Cons.prems(2) ih False by fastforce
    qed
  qed
qed

lemma take_due_member:
  "take_due ts = Some (u, us) \<Longrightarrow> u \<in> set ts \<and> set us \<subseteq> set ts"
proof (induction ts arbitrary: u us)
  case Nil
  then show ?case by simp
next
  case (Cons a ts)
  show ?case
  proof (cases "take_due ts")
    case None
    with Cons.prems show ?thesis by simp
  next
    case (Some p)
    obtain v vs where p: "p = (v, vs)" by (cases p)
    have "v \<in> set ts \<and> set vs \<subseteq> set ts" using Cons.IH Some p by simp
    with Cons.prems Some p show ?thesis by (auto split: if_splits)
  qed
qed

lemma take_due_head:
  "\<forall>t \<in> set ts. due a \<le> due t \<Longrightarrow> take_due (a # ts) = Some (a, ts)"
proof (cases "take_due ts")
  case None
  then show ?thesis by (simp add: take_due_None)
next
  case (Some p)
  assume all: "\<forall>t \<in> set ts. due a \<le> due t"
  obtain v vs where p: "p = (v, vs)" by (cases p)
  have "v \<in> set ts" using take_due_member Some p by blast
  then have "\<not> due v < due a" using all by fastforce
  then show ?thesis using Some p by simp
qed

lemma put_in_end: "put_in x ts (ts @ [x])"
  by (induction ts) (auto intro: put_in.intros)

lemma put_in_append: "put_in x ts ts' \<Longrightarrow> put_in x (ts @ zs) (ts' @ zs)"
  by (induction rule: put_in.induct) (auto intro: put_in.intros)

lemma put_in_set: "put_in x ts ts' \<Longrightarrow> set ts' = insert x (set ts)"
  by (induction rule: put_in.induct) auto

text \<open>The timer that fires from the longer queue is the one put in, or the one that fires
  from the shorter queue.\<close>

lemma take_due_put_in:
  assumes "put_in x ts ts'" and "take_due ts' = Some (u, us)"
  shows "(u = x \<and> us = ts) \<or> (\<exists>vs. take_due ts = Some (u, vs) \<and> put_in x vs us)"
  using assms
proof (induction arbitrary: u us rule: put_in.induct)
  case (here x ts)
  show ?case
  proof (cases "take_due ts")
    case None
    then have "ts = []" by (simp add: take_due_None)
    with here show ?thesis by simp
  next
    case (Some p)
    obtain v vs where p: "p = (v, vs)" by (cases p)
    show ?thesis
    proof (cases "due v < due x")
      case True
      then have "u = v" "us = x # vs" using here Some p by simp_all
      then show ?thesis using Some p by (auto intro: put_in.intros)
    next
      case False
      then show ?thesis using here Some p by simp
    qed
  qed
next
  case (later x ts ts' t)
  have ne: "take_due ts' \<noteq> None"
    using later.hyps put_in_set [of x ts ts'] by (auto simp: take_due_None)
  then obtain v vs where v: "take_due ts' = Some (v, vs)" by auto
  have ih: "(v = x \<and> vs = ts) \<or> (\<exists>ws. take_due ts = Some (v, ws) \<and> put_in x ws vs)"
    using later.IH [OF v] .
  show ?case
  proof (cases "due v < due t")
    case True
    then have u: "u = v" "us = t # vs" using later.prems v by simp_all
    from ih show ?thesis
    proof
      assume "v = x \<and> vs = ts"
      then show ?thesis using u by simp
    next
      assume "\<exists>ws. take_due ts = Some (v, ws) \<and> put_in x ws vs"
      then obtain ws where ws: "take_due ts = Some (v, ws)" "put_in x ws vs" by blast
      then have "take_due (t # ts) = Some (v, t # ws)" using True by simp
      moreover have "put_in x (t # ws) (t # vs)" using ws(2) by (rule put_in.later)
      ultimately show ?thesis using u by blast
    qed
  next
    case False
    then have u: "u = t" "us = ts'" using later.prems v by simp_all
    have "due t \<le> due w" if "w \<in> set ts" for w
    proof -
      have "w \<in> set ts'" using that put_in_set [OF later.hyps] by simp
      then have "due v \<le> due w" using take_due_least [OF v] by blast
      then show ?thesis using False by simp
    qed
    then have "take_due (t # ts) = Some (t, ts)" by (intro take_due_head) blast
    then show ?thesis using u later.hyps by blast
  qed
qed

text \<open>What a callback does depends on the images and on the clock only.\<close>

lemma run_fields:
  "images_path (snd (run fs a c)) = images_path c
   \<and> size_c (snd (run fs a c)) = size_c c
   \<and> files (snd (run fs a c)) = files c
   \<and> clock (snd (run fs a c)) = clock c
   \<and> timers (snd (run fs a c)) = timers c @ asked c fs a"
  by (auto simp: asked_def run_def after_def Let_def split: sum.splits)

lemma run_same:
  assumes "images_path c = images_path c'" and "size_c c = size_c c'" and "files c = files c'"
    and "clock c = clock c'"
  shows "shown c fs a = shown c' fs a \<and> asked c fs a = asked c' fs a"
  using assms
  by (auto simp: shown_def asked_def run_def after_def Let_def split: sum.splits)

lemma fire_None: "(fire c = None) = (timers c = [])"
  by (auto simp: fire_def take_due_None split: option.splits prod.splits sum.splits)

lemma fire_Some:
  assumes "take_due (timers c) = Some (t, us)"
  shows "fire c = Some ((ms t, arg t,
                         shown (c\<lparr>clock := max (clock c) (due t), timers := us\<rparr>) (captured t) (arg t)),
                        snd (run (captured t) (arg t)
                               (c\<lparr>clock := max (clock c) (due t), timers := us\<rparr>)))"
  using assms by (auto simp: fire_def shown_def split: prod.splits sum.splits)

lemma mainloop_stop: "timers c = [] \<Longrightarrow> mainloop c = ([], c)"
  by (subst mainloop.simps) (simp add: fire_def)

lemma mainloop_step:
  "fire c = Some (k, c1) \<Longrightarrow> fst (mainloop c) = k # fst (mainloop c1)
                              \<and> snd (mainloop c) = snd (mainloop c1)"
  by (subst (1 2) mainloop.simps) (simp split: prod.splits)

text \<open>Two widgets with the same queue and the same images make the same ticks, also when
  one clock is behind, if no timer is overdue on the other.\<close>

lemma mainloop_same:
  assumes "timers c = timers c'"
    and "images_path c = images_path c'" and "size_c c = size_c c'" and "files c = files c'"
    and "clock c = clock c' \<or> (clock c' \<le> clock c \<and> (\<forall>e \<in> set (timers c). clock c \<le> due e))"
  shows "fst (mainloop c) = fst (mainloop c')"
  using assms
proof (induction c arbitrary: c' rule: mainloop.induct)
  case (1 c)
  show ?case
  proof (cases "take_due (timers c)")
    case None
    then have "timers c = []" by (simp add: take_due_None)
    then show ?thesis using "1.prems"(1) by (simp add: mainloop_stop)
  next
    case (Some p)
    obtain t us where td: "take_due (timers c) = Some (t, us)" using Some by (cases p) simp
    let ?c0 = "c\<lparr>clock := max (clock c) (due t), timers := us\<rparr>"
    let ?d0 = "c'\<lparr>clock := max (clock c') (due t), timers := us\<rparr>"
    let ?c1 = "snd (run (captured t) (arg t) ?c0)"
    let ?d1 = "snd (run (captured t) (arg t) ?d0)"
    have tin: "t \<in> set (timers c)" using take_due_member [OF td] by simp
    have ck: "clock ?c0 = clock ?d0"
      using "1.prems"(5) tin by auto
    have same: "shown ?c0 (captured t) (arg t) = shown ?d0 (captured t) (arg t)
              \<and> asked ?c0 (captured t) (arg t) = asked ?d0 (captured t) (arg t)"
      using "1.prems"(2,3,4) ck by (intro run_same) simp_all
    have fc: "fire c = Some ((ms t, arg t, shown ?c0 (captured t) (arg t)), ?c1)"
      using fire_Some [OF td] .
    have fd: "fire c' = Some ((ms t, arg t, shown ?c0 (captured t) (arg t)), ?d1)"
      using fire_Some [of c' t us] td "1.prems"(1) same by simp
    have "fst (mainloop ?c1) = fst (mainloop ?d1)"
    proof (rule "1.IH" [OF fc refl])
      show "timers ?c1 = timers ?d1"
        using run_fields [of "captured t" "arg t" ?c0] run_fields [of "captured t" "arg t" ?d0] same
        by simp
      show "images_path ?c1 = images_path ?d1" "size_c ?c1 = size_c ?d1" "files ?c1 = files ?d1"
        using run_fields [of "captured t" "arg t" ?c0] run_fields [of "captured t" "arg t" ?d0]
          "1.prems"(2,3,4) by simp_all
      show "clock ?c1 = clock ?d1
            \<or> (clock ?d1 \<le> clock ?c1 \<and> (\<forall>e \<in> set (timers ?c1). clock ?c1 \<le> due e))"
        using run_fields [of "captured t" "arg t" ?c0] run_fields [of "captured t" "arg t" ?d0] ck
        by simp
    qed
    then show ?thesis
      using mainloop_step [OF fc] mainloop_step [OF fd] by simp
  qed
qed

lemma shown_frame:
  assumes "i < length fs"
  shows "shown c fs (int i)
           = (if images_path c @ filename (fs ! i) \<in> set (files c)
              then Inr (Some \<lparr>image_file = images_path c @ filename (fs ! i),
                                image_size = (size_c c, size_c c)\<rparr>)
              else Inl (OSError (images_path c @ filename (fs ! i))))"
  using assms by (simp add: shown_def run_def after_def getitem_nat Let_def)

lemma asked_frame:
  assumes "i < length fs"
  shows "asked c fs (int i)
           = (if images_path c @ filename (fs ! i) \<in> set (files c) \<and> Suc i < length fs
              then [Timer (clock c + max 0 (duration (fs ! i))) (duration (fs ! i)) fs (int (Suc i))]
              else [])"
proof -
  have "(int i < int (length fs) - 1) = (Suc i < length fs)" by linarith
  then show ?thesis
    using assms by (simp add: asked_def run_def after_def getitem_nat Let_def add.commute)
qed

text \<open>
  The ticks of a chain from index \<open>i\<close> on, when \<open>k\<close> frames open before the first
  that does not: interleaved with the ticks of the other timers.
\<close>

lemma mainloop_chain:
  assumes "put_in (Timer d m fs (int i)) (timers c') (timers c)"
    and "i < length fs" and "i \<le> k"
    and "\<forall>j < k. j < length fs \<longrightarrow> path @ filename (fs ! j) \<in> set fls"
    and "k < length fs \<longrightarrow> path @ filename (fs ! k) \<notin> set fls"
    and "images_path c = path" and "images_path c' = path"
    and "size_c c = sz" and "size_c c' = sz"
    and "files c = fls" and "files c' = fls"
    and "clock c' \<le> clock c" and "clock c \<le> d"
    and "clock c' = clock c \<or> (\<forall>e \<in> set (timers c'). clock c \<le> due e)"
  shows "fst (mainloop c)
           \<in> shuffles
               ((m, int i,
                 if i < k then Inr (Some \<lparr>image_file = path @ filename (fs ! i), image_size = (sz, sz)\<rparr>)
                 else Inl (OSError (path @ filename (fs ! i))))
                # map (\<lambda>j. (duration (fs ! (j - 1)), int j,
                             if j < k
                             then Inr (Some \<lparr>image_file = path @ filename (fs ! j), image_size = (sz, sz)\<rparr>)
                             else Inl (OSError (path @ filename (fs ! j)))))
                    [Suc i..<min (length fs) (Suc k)])
               (fst (mainloop c'))"
  using assms
proof (induction c arbitrary: c' d m i rule: mainloop.induct)
  case (1 c)
  let ?x = "Timer d m fs (int i)"
  let ?out = "\<lambda>j. if j < k
                    then Inr (Some \<lparr>image_file = path @ filename (fs ! j), image_size = (sz, sz)\<rparr>)
                    else Inl (OSError (path @ filename (fs ! j)))"
  let ?rest = "\<lambda>i. map (\<lambda>j. (duration (fs ! (j - 1)), int j, ?out j)) [Suc i..<min (length fs) (Suc k)]"
  note pin = "1.prems"(1) and il = "1.prems"(2) and ik = "1.prems"(3)
    and opens = "1.prems"(4) and stops = "1.prems"(5)
    and w = "1.prems"(6-11) and ck = "1.prems"(12,13) and dj = "1.prems"(14)
  have xin: "?x \<in> set (timers c)" and sub: "set (timers c') \<subseteq> set (timers c)"
    using put_in_set [OF pin] by auto
  then have "take_due (timers c) \<noteq> None" by (auto simp: take_due_None)
  then obtain u us where td: "take_due (timers c) = Some (u, us)" by auto
  let ?c0 = "c\<lparr>clock := max (clock c) (due u), timers := us\<rparr>"
  let ?c1 = "snd (run (captured u) (arg u) ?c0)"
  have fc: "fire c = Some ((ms u, arg u, shown ?c0 (captured u) (arg u)), ?c1)"
    using fire_Some [OF td] .
  have f1: "images_path ?c1 = path" "size_c ?c1 = sz" "files ?c1 = fls"
       "clock ?c1 = max (clock c) (due u)" "timers ?c1 = us @ asked ?c0 (captured u) (arg u)"
    using run_fields [of "captured u" "arg u" ?c0] w by simp_all
  have least: "due u \<le> due e" if "e \<in> set (timers c)" for e
    using take_due_least [OF td that] .
  from take_due_put_in [OF pin td]
  show ?case
  proof
    assume a: "u = ?x \<and> us = timers c'"
    then have u: "captured u = fs" "arg u = int i" "ms u = m" "due u = d" by simp_all
    have c0: "clock ?c0 = d" using u ck by simp
    have ok: "(path @ filename (fs ! i) \<in> set fls) = (i < k)"
      using opens stops il ik by (cases "i < k") auto
    have sh: "shown ?c0 fs (int i) = ?out i"
      using shown_frame [OF il, of ?c0] w ok by simp
    have as: "asked ?c0 fs (int i)
                = (if i < k \<and> Suc i < length fs
                   then [Timer (d + max 0 (duration (fs ! i))) (duration (fs ! i)) fs (int (Suc i))]
                   else [])"
      using asked_frame [OF il, of ?c0] w ok c0 by simp
    have step: "fst (mainloop c) = (m, int i, ?out i) # fst (mainloop ?c1)"
      using mainloop_step [OF fc] u sh by simp
    have behind: "\<forall>e \<in> set (timers c'). d \<le> due e"
      using least sub u by auto
    show ?thesis
    proof (cases "i < k \<and> Suc i < length fs")
      case True
      let ?y = "Timer (d + max 0 (duration (fs ! i))) (duration (fs ! i)) fs (int (Suc i))"
      have t1: "timers ?c1 = timers c' @ [?y]"
        using f1(5) u as a True by simp
      have "fst (mainloop ?c1)
              \<in> shuffles ((duration (fs ! i), int (Suc i), ?out (Suc i)) # ?rest (Suc i))
                          (fst (mainloop c'))"
      proof (rule "1.IH" [OF fc refl])
        show "put_in ?y (timers c') (timers ?c1)"
          unfolding t1 by (rule put_in_end)
        show "Suc i < length fs" "Suc i \<le> k" using True by simp_all
        show "\<forall>j < k. j < length fs \<longrightarrow> path @ filename (fs ! j) \<in> set fls" by (rule opens)
        show "k < length fs \<longrightarrow> path @ filename (fs ! k) \<notin> set fls" by (rule stops)
        show "images_path ?c1 = path" "size_c ?c1 = sz" "files ?c1 = fls" by (rule f1)+
        show "images_path c' = path" "size_c c' = sz" "files c' = fls" using w by simp_all
        show "clock c' \<le> clock ?c1" using f1(4) u ck by simp
        show "clock ?c1 \<le> d + max 0 (duration (fs ! i))" using f1(4) u ck by simp
        show "clock c' = clock ?c1 \<or> (\<forall>e \<in> set (timers c'). clock ?c1 \<le> due e)"
          using f1(4) u ck behind by simp
      qed
      moreover have "[Suc i..<min (length fs) (Suc k)]
                       = Suc i # [Suc (Suc i)..<min (length fs) (Suc k)]"
        using True by (simp add: upt_conv_Cons)
      ultimately show ?thesis
        unfolding step by (simp add: Cons_in_shuffles_leftI)
    next
      case False
      then have e: "[Suc i..<min (length fs) (Suc k)] = []"
        using il ik by auto
      have t1: "timers ?c1 = timers c'"
        using f1(5) u as a False by simp
      have "fst (mainloop ?c1) = fst (mainloop c')"
      proof (rule mainloop_same [OF t1])
        show "images_path ?c1 = images_path c'" "size_c ?c1 = size_c c'" "files ?c1 = files c'"
          using f1 w by simp_all
        show "clock ?c1 = clock c'
              \<or> (clock c' \<le> clock ?c1 \<and> (\<forall>e \<in> set (timers ?c1). clock ?c1 \<le> due e))"
          using f1(4) u ck behind t1 by simp
      qed
      then show ?thesis
        unfolding step e by (simp add: Cons_in_shuffles_leftI)
    qed
  next
    assume "\<exists>vs. take_due (timers c') = Some (u, vs) \<and> put_in ?x vs us"
    then obtain vs where td': "take_due (timers c') = Some (u, vs)" and pin': "put_in ?x vs us"
      by blast
    let ?d0 = "c'\<lparr>clock := max (clock c') (due u), timers := vs\<rparr>"
    let ?d1 = "snd (run (captured u) (arg u) ?d0)"
    have uin: "u \<in> set (timers c')" using take_due_member [OF td'] by simp
    have ck0: "clock ?c0 = clock ?d0"
      using dj ck uin by auto
    have same: "shown ?c0 (captured u) (arg u) = shown ?d0 (captured u) (arg u)
              \<and> asked ?c0 (captured u) (arg u) = asked ?d0 (captured u) (arg u)"
      using w ck0 by (intro run_same) simp_all
    have fd: "fire c' = Some ((ms u, arg u, shown ?c0 (captured u) (arg u)), ?d1)"
      using fire_Some [OF td'] same by simp
    have g1: "images_path ?d1 = path" "size_c ?d1 = sz" "files ?d1 = fls"
       "clock ?d1 = max (clock c') (due u)" "timers ?d1 = vs @ asked ?c0 (captured u) (arg u)"
      using run_fields [of "captured u" "arg u" ?d0] w same by simp_all
    have "fst (mainloop ?c1)
            \<in> shuffles ((m, int i, ?out i) # ?rest i) (fst (mainloop ?d1))"
    proof (rule "1.IH" [OF fc refl])
      show "put_in ?x (timers ?d1) (timers ?c1)"
        unfolding f1(5) g1(5) using pin' by (rule put_in_append)
      show "i < length fs" "i \<le> k" by (rule il, rule ik)
      show "\<forall>j < k. j < length fs \<longrightarrow> path @ filename (fs ! j) \<in> set fls" by (rule opens)
      show "k < length fs \<longrightarrow> path @ filename (fs ! k) \<notin> set fls" by (rule stops)
      show "images_path ?c1 = path" "size_c ?c1 = sz" "files ?c1 = fls" by (rule f1)+
      show "images_path ?d1 = path" "size_c ?d1 = sz" "files ?d1 = fls" by (rule g1)+
      show "clock ?d1 \<le> clock ?c1" using f1(4) g1(4) ck0 by simp
      show "clock ?c1 \<le> d" using f1(4) ck least [OF xin] by simp
      show "clock ?d1 = clock ?c1 \<or> (\<forall>e \<in> set (timers ?d1). clock ?c1 \<le> due e)"
        using f1(4) g1(4) ck0 by simp
    qed
    then show ?thesis
      using mainloop_step [OF fc] mainloop_step [OF fd]
      by (simp add: Cons_in_shuffles_rightI)
  qed
qed

lemma mainloop_drains: "timers (snd (mainloop c)) = []"
proof (induction c rule: mainloop.induct)
  case (1 c)
  show ?case
  proof (cases "fire c")
    case None
    then have "timers c = []" by (simp add: fire_None)
    then show ?thesis by (simp add: mainloop_stop)
  next
    case (Some p)
    obtain k c1 where p: "p = (k, c1)" by (cases p)
    then show ?thesis
      using "1.IH" [OF Some, of k c1] mainloop_step [of c k c1] Some by simp
  qed
qed

lemma opening_frames:
  "\<forall>j < length (takeWhile P fs). j < length fs \<longrightarrow> P (fs ! j)"
  "length (takeWhile P fs) < length fs \<longrightarrow> \<not> P (fs ! length (takeWhile P fs))"
proof -
  show "\<forall>j < length (takeWhile P fs). j < length fs \<longrightarrow> P (fs ! j)"
  proof (intro allI impI)
    fix j
    assume j: "j < length (takeWhile P fs)"
    then have "takeWhile P fs ! j \<in> set (takeWhile P fs)" by (rule nth_mem)
    then have "P (takeWhile P fs ! j)" by (rule set_takeWhileD [THEN conjunct2])
    then show "P (fs ! j)" using j by (simp add: takeWhile_nth)
  qed
  show "length (takeWhile P fs) < length fs \<longrightarrow> \<not> P (fs ! length (takeWhile P fs))"
    by (simp add: nth_length_takeWhile)
qed

lemma playback_interleaved:
  assumes "animations self nm = Some fs" and "fs \<noteq> []"
  shows "play_animation self nm
           = (Inr (), after (duration (fs ! 0)) fs 0 (self\<lparr>active_animation_name := Some nm\<rparr>))"
    and "fst (mainloop (snd (play_animation self nm)))
           \<in> shuffles
               (map (\<lambda>j. (if j = 0 then duration (fs ! 0) else duration (fs ! (j - 1)), int j,
                           if j < length (takeWhile (\<lambda>f. images_path self @ filename f \<in> set (files self)) fs)
                           then Inr (Some \<lparr>image_file = images_path self @ filename (fs ! j),
                                             image_size = (size_c self, size_c self)\<rparr>)
                           else Inl (OSError (images_path self @ filename (fs ! j)))))
                    [0..<min (length fs)
                             (Suc (length (takeWhile (\<lambda>f. images_path self @ filename f \<in> set (files self)) fs)))])
               (fst (mainloop self))"
proof -
  let ?P = "\<lambda>f. images_path self @ filename f \<in> set (files self)"
  let ?k = "length (takeWhile ?P fs)"
  let ?c = "after (duration (fs ! 0)) fs 0 (self\<lparr>active_animation_name := Some nm\<rparr>)"
  let ?out = "\<lambda>j. if j < ?k
                    then Inr (Some \<lparr>image_file = images_path self @ filename (fs ! j),
                                      image_size = (size_c self, size_c self)\<rparr>)
                    else Inl (OSError (images_path self @ filename (fs ! j)))"
  have g: "getitem fs 0 = Inr (fs ! 0)"
    using assms(2) getitem_nat [of 0 fs] by simp
  show p: "play_animation self nm = (Inr (), ?c)"
    using assms(1) g by (simp add: play_animation_def)
  have t: "timers ?c = timers self @ [Timer (clock self + max 0 (duration (fs ! 0))) (duration (fs ! 0)) fs (int 0)]"
    by (simp add: after_def)
  have "fst (mainloop ?c)
          \<in> shuffles ((duration (fs ! 0), int 0, ?out 0)
                       # map (\<lambda>j. (duration (fs ! (j - 1)), int j, ?out j))
                           [Suc 0..<min (length fs) (Suc ?k)])
                      (fst (mainloop self))"
  proof (rule mainloop_chain [where d = "clock self + max 0 (duration (fs ! 0))"])
    show "put_in (Timer (clock self + max 0 (duration (fs ! 0))) (duration (fs ! 0)) fs (int 0))
            (timers self) (timers ?c)"
      unfolding t by (rule put_in_end)
    show "0 < length fs" using assms(2) by simp
    show "0 \<le> ?k" by simp
    show "\<forall>j < ?k. j < length fs \<longrightarrow> images_path self @ filename (fs ! j) \<in> set (files self)"
      using opening_frames(1) [of ?P fs] .
    show "?k < length fs \<longrightarrow> images_path self @ filename (fs ! ?k) \<notin> set (files self)"
      using opening_frames(2) [of ?P fs] .
    show "images_path ?c = images_path self" "size_c ?c = size_c self" "files ?c = files self"
      by (simp_all add: after_def)
    show "clock self \<le> clock ?c" "clock ?c \<le> clock self + max 0 (duration (fs ! 0))"
      "clock self = clock ?c \<or> (\<forall>e \<in> set (timers self). clock ?c \<le> due e)"
      by (simp_all add: after_def)
  qed simp_all
  moreover have "(duration (fs ! 0), int 0, ?out 0)
                       # map (\<lambda>j. (duration (fs ! (j - 1)), int j, ?out j))
                           [Suc 0..<min (length fs) (Suc ?k)]
      = map (\<lambda>j. (if j = 0 then duration (fs ! 0) else duration (fs ! (j - 1)), int j, ?out j))
          [0..<min (length fs) (Suc ?k)]"
  proof -
    have "0 < min (length fs) (Suc ?k)" using assms(2) by simp
    then have "[0..<min (length fs) (Suc ?k)] = 0 # [Suc 0..<min (length fs) (Suc ?k)]"
      by (simp add: upt_conv_Cons)
    then show ?thesis by simp
  qed
  ultimately show "fst (mainloop (snd (play_animation self nm)))
           \<in> shuffles
               (map (\<lambda>j. (if j = 0 then duration (fs ! 0) else duration (fs ! (j - 1)), int j, ?out j))
                    [0..<min (length fs) (Suc ?k)])
               (fst (mainloop self))"
    unfolding p by simp
qed

text \<open>
  Claim C6, as stated: each frame is shown for its own duration, and the indices run to
  the last. Neither holds throughout. Of three frames of 10, 20 and 30 milliseconds the
  ticks are asked for after 10, 10 and 20: the first frame waits for its own duration
  before it appears, and the duration of the last is not used. And when the image of the
  second frame does not open, the tick of index 1 raises and there is no tick of index 2.
\<close>

theorem play_animation_last_duration_counterexample:
  "fst (mainloop (snd (play_animation
          (counter [''./assets/images/a.png'', ''./assets/images/b.png'', ''./assets/images/c.png''])
          ''count'')))
     = [(10, 0, Inr (Some \<lparr>image_file = ''./assets/images/a.png'', image_size = (54, 54)\<rparr>)),
        (10, 1, Inr (Some \<lparr>image_file = ''./assets/images/b.png'', image_size = (54, 54)\<rparr>)),
        (20, 2, Inr (Some \<lparr>image_file = ''./assets/images/c.png'', image_size = (54, 54)\<rparr>))]
   \<and> map duration counting = [10, 20, 30]
   \<and> fst (mainloop (snd (play_animation
          (counter [''./assets/images/a.png'', ''./assets/images/c.png'']) ''count'')))
     = [(10, 0, Inr (Some \<lparr>image_file = ''./assets/images/a.png'', image_size = (54, 54)\<rparr>)),
        (10, 1, Inl (OSError ''./assets/images/b.png''))]"
proof -
  have r: "animations (counter disk) ''count'' = Some counting"
    and t: "timers (counter disk) = []"
    and w: "images_path (counter disk) = ''./assets/images/''" "files (counter disk) = disk"
      "size_c (counter disk) = 54"
    for disk
    by (simp_all add: counter_def blank_def)
  have n: "counting \<noteq> []" by (simp add: counting_def)
  have idle: "fst (mainloop (counter disk)) = []" for disk
    using t by (simp add: mainloop_stop)
  have 1: "fst (mainloop (snd (play_animation
          (counter [''./assets/images/a.png'', ''./assets/images/b.png'', ''./assets/images/c.png''])
          ''count'')))
     = [(10, 0, Inr (Some \<lparr>image_file = ''./assets/images/a.png'', image_size = (54, 54)\<rparr>)),
        (10, 1, Inr (Some \<lparr>image_file = ''./assets/images/b.png'', image_size = (54, 54)\<rparr>)),
        (20, 2, Inr (Some \<lparr>image_file = ''./assets/images/c.png'', image_size = (54, 54)\<rparr>))]"
    using playback_interleaved(2) [OF r n, of "[''./assets/images/a.png'', ''./assets/images/b.png'', ''./assets/images/c.png'']"]
    unfolding idle w
    by (simp add: counting_def AnimationFrame_init_def upt_conv_Cons)
  have 2: "fst (mainloop (snd (play_animation
          (counter [''./assets/images/a.png'', ''./assets/images/c.png'']) ''count'')))
     = [(10, 0, Inr (Some \<lparr>image_file = ''./assets/images/a.png'', image_size = (54, 54)\<rparr>)),
        (10, 1, Inl (OSError ''./assets/images/b.png''))]"
    using playback_interleaved(2) [OF r n, of "[''./assets/images/a.png'', ''./assets/images/c.png'']"]
    unfolding idle w
    by (simp add: counting_def AnimationFrame_init_def upt_conv_Cons)
  have 3: "map duration counting = [10, 20, 30]"
    by (simp add: counting_def AnimationFrame_init_def)
  show ?thesis using 1 2 3 by blast
qed

text \<open>
  Claim C6, amended. \<open>play_animation\<close> on a registered animation returns normally
  and adds one chain of ticks to the event loop, whatever is pending: the ticks of the
  other timers happen as they would have, interleaved with those of the chain. The chain
  calls \<^verbatim>\<open>run\<close> on the indices \<open>0, 1, \<dots>\<close> in this order, once each, and stops after
  the last frame or at the first frame whose image does not open, whose tick raises.
  A tick whose image opens puts the image of its frame on the label. The first tick is
  asked for after the duration of the first frame and the tick of frame \<open>j\<close> after the
  duration of frame \<open>j - 1\<close>: a frame that has a successor is replaced when its own
  duration has passed, the last frame is not replaced, and the duration of the last
  frame is not used. When the loop has run, nothing is pending. A registered animation
  has at least one frame, since \<open>Animation\<close> cannot be constructed without.
\<close>

theorem play_animation_schedule:
  assumes "animations self nm = Some fs" and "fs \<noteq> []"
  shows "fst (play_animation self nm) = Inr ()
       \<and> fst (mainloop (snd (play_animation self nm)))
           \<in> shuffles
               (map (\<lambda>j. (if j = 0 then duration (fs ! 0) else duration (fs ! (j - 1)), int j,
                           if j < length (takeWhile (\<lambda>f. images_path self @ filename f \<in> set (files self)) fs)
                           then Inr (Some \<lparr>image_file = images_path self @ filename (fs ! j),
                                             image_size = (size_c self, size_c self)\<rparr>)
                           else Inl (OSError (images_path self @ filename (fs ! j)))))
                    [0..<min (length fs)
                             (Suc (length (takeWhile (\<lambda>f. images_path self @ filename f \<in> set (files self)) fs)))])
               (fst (mainloop self))
       \<and> timers (snd (mainloop (snd (play_animation self nm)))) = []"
  using playback_interleaved [OF assms] mainloop_drains by simp

theorem play_animation_schedule_witness:
  "animations stage_character ''blink'' = Some blink \<and> blink \<noteq> []
   \<and> fst (play_animation stage_character ''blink'') = Inr ()
   \<and> fst (mainloop (snd (play_animation stage_character ''blink'')))
       = [(250, 0, Inr (Some \<lparr>image_file = ''./assets/images/blink_0001.png'', image_size = (54, 54)\<rparr>)),
          (250, 1, Inr (Some \<lparr>image_file = ''./assets/images/blink_0002.png'', image_size = (54, 54)\<rparr>)),
          (100, 2, Inr (Some \<lparr>image_file = ''./assets/images/blink_0003.png'', image_size = (54, 54)\<rparr>)),
          (100, 3, Inr (Some \<lparr>image_file = ''./assets/images/blink_0004.png'', image_size = (54, 54)\<rparr>))]
   \<and> timers (snd (mainloop (snd (play_animation stage_character ''blink'')))) = []
   \<and> timers (snd (play_animation stage_character ''blink'')) \<noteq> []
   \<and> fst (mainloop (snd (play_animation (snd (play_animation stage_character ''blink'')) ''blink'')))
       \<in> shuffles
           [(250, 0, Inr (Some \<lparr>image_file = ''./assets/images/blink_0001.png'', image_size = (54, 54)\<rparr>)),
            (250, 1, Inr (Some \<lparr>image_file = ''./assets/images/blink_0002.png'', image_size = (54, 54)\<rparr>)),
            (100, 2, Inr (Some \<lparr>image_file = ''./assets/images/blink_0003.png'', image_size = (54, 54)\<rparr>)),
            (100, 3, Inr (Some \<lparr>image_file = ''./assets/images/blink_0004.png'', image_size = (54, 54)\<rparr>))]
           (fst (mainloop (snd (play_animation stage_character ''blink''))))"
proof -
  let ?ticks = "[(250, 0, Inr (Some \<lparr>image_file = ''./assets/images/blink_0001.png'', image_size = (54, 54)\<rparr>)),
          (250, 1, Inr (Some \<lparr>image_file = ''./assets/images/blink_0002.png'', image_size = (54, 54)\<rparr>)),
          (100, 2, Inr (Some \<lparr>image_file = ''./assets/images/blink_0003.png'', image_size = (54, 54)\<rparr>)),
          (100, 3, Inr (Some \<lparr>image_file = ''./assets/images/blink_0004.png'', image_size = (54, 54)\<rparr>))]
            :: tick list"
  let ?again = "snd (play_animation stage_character ''blink'')"
  have a: "animations stage_character ''blink'' = Some blink"
    and t: "timers stage_character = []"
    by (simp_all add: stage_character_def blank_def)
  have n: "blink \<noteq> []" by (simp add: blink_def)
  have idle: "fst (mainloop stage_character) = []"
    using t by (simp add: mainloop_stop)
  have chain: "map (\<lambda>j. (if j = 0 then duration (blink ! 0) else duration (blink ! (j - 1)), int j,
                           if j < length (takeWhile (\<lambda>f. images_path stage_character @ filename f
                                                          \<in> set (files stage_character)) blink)
                           then Inr (Some \<lparr>image_file = images_path stage_character @ filename (blink ! j),
                                             image_size = (size_c stage_character, size_c stage_character)\<rparr>)
                           else Inl (OSError (images_path stage_character @ filename (blink ! j)))))
                    [0..<min (length blink)
                             (Suc (length (takeWhile (\<lambda>f. images_path stage_character @ filename f
                                                          \<in> set (files stage_character)) blink)))]
                = ?ticks"
    by (simp add: stage_character_def blank_def blink_def demo_files_def AnimationFrame_init_def
        upt_conv_Cons)
  note first = play_animation_schedule [OF a n]
  have 1: "fst (play_animation stage_character ''blink'') = Inr ()"
    using first by blast
  have 2: "fst (mainloop ?again) = ?ticks"
    using first unfolding chain idle by simp
  have 3: "timers (snd (mainloop ?again)) = []"
    using first by blast
  have p: "?again = after (duration (blink ! 0)) blink 0
                      (stage_character\<lparr>active_animation_name := Some ''blink''\<rparr>)"
    using playback_interleaved(1) [OF a n] by simp
  have 4: "timers ?again \<noteq> []"
    unfolding p by (simp add: after_def)
  have a2: "animations ?again ''blink'' = Some blink"
    and w2: "images_path ?again = images_path stage_character"
      "files ?again = files stage_character" "size_c ?again = size_c stage_character"
    unfolding p using a by (simp_all add: after_def)
  have 5: "fst (mainloop (snd (play_animation ?again ''blink''))) \<in> shuffles ?ticks (fst (mainloop ?again))"
    using play_animation_schedule [OF a2 n] unfolding w2 chain by blast
  show ?thesis
    using a n 1 2 3 4 5 by blast
qed

subsection \<open>Frames are only read\<close>

lemma update_position_animations:
  "animations (snd (update_position self)) = animations self"
  by (auto simp: update_position_def Let_def split: option.splits prod.splits)

lemma set_position_animations:
  "animations (snd (set_position self pos)) = animations self"
proof -
  obtain r s where u: "update_position (self\<lparr>position := pos\<rparr>) = (r, s)"
    by (cases "update_position (self\<lparr>position := pos\<rparr>)")
  then have "animations s = animations self"
    using update_position_animations [of "self\<lparr>position := pos\<rparr>"] by simp
  then show ?thesis
    using u by (cases r) (auto simp: set_position_def Let_def)
qed

lemma run_animations: "animations (snd (run fs i self)) = animations self"
  by (auto simp: run_def after_def Let_def split: sum.splits)

lemma fire_animations:
  assumes "fire self = Some (k, self1)"
  shows "animations self1 = animations self"
proof -
  obtain t us where td: "take_due (timers self) = Some (t, us)"
    using assms by (auto simp: fire_def split: option.splits)
  have "self1 = snd (run (captured t) (arg t)
                       (self\<lparr>clock := max (clock self) (due t), timers := us\<rparr>))"
    using assms fire_Some [OF td] by simp
  then show ?thesis by (simp add: run_animations)
qed

lemma mainloop_animations: "animations (snd (mainloop self)) = animations self"
proof (induction self rule: mainloop.induct)
  case (1 self)
  show ?case
  proof (cases "fire self")
    case None
    then show ?thesis by (subst mainloop.simps) simp
  next
    case (Some x)
    obtain t self1 where x: "x = (t, self1)" by (cases x)
    have "animations (snd (mainloop self1)) = animations self1"
      using "1.IH" [OF Some, of t self1] x by simp
    moreover have "snd (mainloop self) = snd (mainloop self1)"
      using Some x by (subst mainloop.simps) (simp split: prod.splits)
    ultimately show ?thesis
      using Some x fire_animations [of self t self1] by simp
  qed
qed

text \<open>
  Claim C7. No statement of the source assigns to the \<open>filename\<close> or the
  \<open>duration\<close> of a frame or changes a list of frames, which is why frames and lists
  of frames are values here. A frame holds what its constructor was given. Every
  operation of \<open>Character\<close> leaves the registry as it is (position updates, showing,
  playback and each of its ticks), and registration leaves every entry that is there as
  it is: the same frames, in the same order, with the same file names and durations.
\<close>

theorem frames_never_modified:
  "filename (AnimationFrame_init fname dur) = fname
   \<and> duration (AnimationFrame_init fname dur) = (case dur of None \<Rightarrow> 250 | Some d \<Rightarrow> d)
   \<and> (animations self n = Some fs \<longrightarrow> animations (snd (register_animations self as)) n = Some fs)
   \<and> animations (snd (play_animation self nm)) = animations self
   \<and> animations (snd (run gs i self)) = animations self
   \<and> animations (snd (mainloop self)) = animations self
   \<and> animations (snd (set_position self pos)) = animations self
   \<and> animations (snd (move self offset)) = animations self
   \<and> animations (snd (update_position self)) = animations self
   \<and> animations (show_c self kwargs) = animations self"
proof -
  have p: "animations (snd (play_animation self nm)) = animations self"
    by (auto simp: play_animation_def after_def Let_def split: option.splits sum.splits)
  have m: "animations (snd (move self offset)) = animations self"
    by (simp add: move_def set_position_animations split: prod.splits)
  show ?thesis
    using p m register_animations_keeps [of self n fs as]
    by (simp add: AnimationFrame_init_def run_animations mainloop_animations
        set_position_animations update_position_animations show_c_def)
qed

theorem frames_never_modified_witness:
  "animations registered ''blink'' = Some blink
   \<and> animations (snd (register_animations registered [look_up, idle_again])) ''blink'' = Some blink
   \<and> animations (snd (mainloop (snd (play_animation registered ''blink'')))) ''blink'' = Some blink
   \<and> animations (snd (set_position registered (3, 4))) ''blink'' = Some blink
   \<and> filename (AnimationFrame_init ''blink_0002.png'' (Some 100)) = ''blink_0002.png''
   \<and> duration (AnimationFrame_init ''blink_0002.png'' (Some 100)) = 100"
proof -
  have b: "animations registered ''blink'' = Some blink"
    by (simp add: registered_def idle_animation_def blink_animation_def blank_def)
  have 1: "animations (snd (register_animations registered [look_up, idle_again])) ''blink'' = Some blink"
    using frames_never_modified [of _ _ registered "''blink''" blink "[look_up, idle_again]"] b
    by blast
  have 2: "animations (snd (mainloop (snd (play_animation registered ''blink'')))) ''blink'' = Some blink"
    using frames_never_modified [of _ _ "snd (play_animation registered ''blink'')"]
      frames_never_modified [of _ _ registered _ _ _ "''blink''"] b
    by metis
  have 3: "animations (snd (set_position registered (3, 4))) ''blink'' = Some blink"
    using frames_never_modified [of _ _ registered _ _ _ _ _ _ "(3, 4)"] b
    by metis
  have 4: "filename (AnimationFrame_init ''blink_0002.png'' (Some 100)) = ''blink_0002.png''
     \<and> duration (AnimationFrame_init ''blink_0002.png'' (Some 100)) = 100"
    using frames_never_modified [of "''blink_0002.png''" "Some 100"] by simp
  show ?thesis using b 1 2 3 4 by blast
qed

end
